theory Spec2Isabelle
  imports Main "HOL-Library.Multiset"
begin

section \<open>Python values, exceptions and configuration\<close>

text \<open>
  The batch driver of \<^verbatim>\<open>process.py\<close> and the per-account operations of
  \<^verbatim>\<open>src/model/start.py\<close> and \<^verbatim>\<open>src/utils/logs.py\<close> are embedded as state-passing
  functions. An exception is a value: a computation returns \<open>Inl e\<close> when the Python code
  raises \<open>e\<close> and \<open>Inr v\<close> when it returns \<open>v\<close>.
\<close>

datatype exn = IndexError | ValueError | ZeroDivisionError | OtherError string

text \<open>The values an operation handed to the retry executor may return.\<close>

datatype pyval = PNone | PBool bool | PInt int | PStr string | PTuple "pyval list"

text \<open>
  An entry of \<^verbatim>\<open>FLOW.TASKS\<close> is a task name or a list of alternative task names
  (\<^verbatim>\<open>isinstance(task_item, list)\<close>).
\<close>

datatype task_item = Single string | Alternatives "string list"

record SettingsConfig =
  THREADS :: int
  ATTEMPTS :: int
  ACCOUNTS_RANGE :: "int \<times> int"
  EXACT_ACCOUNTS_TO_USE :: "int list"
  PAUSE_BETWEEN_ATTEMPTS :: "int \<times> int"
  RANDOM_PAUSE_BETWEEN_ACCOUNTS :: "int \<times> int"
  RANDOM_PAUSE_BETWEEN_ACTIONS :: "int \<times> int"
  RANDOM_INITIALIZATION_PAUSE :: "int \<times> int"

record FlowConfig =
  TASKS :: "task_item list"

record Config =
  SETTINGS :: SettingsConfig
  FLOW :: FlowConfig

section \<open>The observable state of one run\<close>

text \<open>
  Every \<^verbatim>\<open>asyncio.sleep\<close> is recorded with the call site that slept. \<open>Invoked\<close> is
  written by the retry executor each time it awaits its operation, tagged with the
  executor's \<^verbatim>\<open>log_prefix\<close> (the account index and the phase name that the f-string
  formats). \<open>Executed\<close> and \<open>Unknown_task\<close> are the two branches of
  \<^verbatim>\<open>Start._execute_task\<close>; \<open>Planned\<close> is the task execution plan that
  \<^verbatim>\<open>Start.flow\<close> logs.
\<close>

datatype pause_site = Initialization_pause | Attempt_pause | Action_pause | Account_pause

datatype event =
    Invoked "int \<times> string"
  | Slept pause_site int
  | Planned "(nat \<times> string) list"
  | Executed string
  | Unknown_task string

datatype client = AsyncClient string

text \<open>
  One directory of \<^verbatim>\<open>data/success_data\<close> or \<^verbatim>\<open>data/error_data\<close>: the lines of its
  three files, oldest first. A line of \<^verbatim>\<open>account_indices.txt\<close> is kept as the integer
  whose decimal text \<^verbatim>\<open>str(account_index)\<close> writes.
\<close>

record ledger =
  account_indices :: "int list"
  proxies :: "string list"
  discord_tokens :: "string list"

text \<open>
  \<open>rnd\<close> is the random source: the \<open>k\<close>-th request to the generator is answered from
  \<open>rnd k\<close>, and \<open>rpos\<close> counts the requests made so far. \<open>session\<close> is the
  \<^verbatim>\<open>session\<close> attribute of the pipeline's \<^verbatim>\<open>Start\<close> instance.
\<close>

record world =
  rnd :: "nat \<Rightarrow> nat"
  rpos :: nat
  trace :: "event list"
  session :: "client option"
  success_data :: ledger
  error_data :: ledger

type_synonym 'a io = "world \<Rightarrow> (exn + 'a) \<times> world"

section \<open>The \<^verbatim>\<open>random\<close> module\<close>

text \<open>\<^verbatim>\<open>random.randint(a, b)\<close> raises \<^verbatim>\<open>ValueError\<close> on an empty range.\<close>

definition randint :: "int \<times> int \<Rightarrow> int io" where
  "randint r w =
     (case r of (a, b) \<Rightarrow>
        if b < a then (Inl ValueError, w)
        else (Inr (a + int (rnd w (rpos w) mod nat (b - a + 1))), w\<lparr>rpos := Suc (rpos w)\<rparr>))"

text \<open>\<^verbatim>\<open>random.choice(seq)\<close> raises \<^verbatim>\<open>IndexError\<close> on an empty sequence.\<close>

definition choice :: "'a list \<Rightarrow> 'a io" where
  "choice seq w =
     (if seq = [] then (Inl IndexError, w)
      else (Inr (seq ! (rnd w (rpos w) mod length seq)), w\<lparr>rpos := Suc (rpos w)\<rparr>))"

text \<open>
  \<^verbatim>\<open>random.shuffle(x)\<close>: for \<open>i\<close> from \<open>len(x) - 1\<close> down to \<open>1\<close>, draw \<open>j\<close> below
  \<open>i + 1\<close> and exchange \<open>x[i]\<close> and \<open>x[j]\<close>.
\<close>

fun shuffle_from :: "nat \<Rightarrow> 'a list \<Rightarrow> world \<Rightarrow> 'a list \<times> world" where
  "shuffle_from 0 x w = (x, w)"
| "shuffle_from (Suc n) x w =
     (let i = Suc n; j = rnd w (rpos w) mod (i + 1)
      in shuffle_from n (x[i := x ! j, j := x ! i]) (w\<lparr>rpos := Suc (rpos w)\<rparr>))"

definition shuffle :: "'a list \<Rightarrow> world \<Rightarrow> 'a list \<times> world" where
  "shuffle x w = shuffle_from (length x - 1) x w"

section \<open>\<^verbatim>\<open>process.py\<close>: account selection and resource cycling\<close>

text \<open>\<^verbatim>\<open>xs[lo:hi]\<close> with Python's clamping of the two bounds.\<close>

definition py_slice :: "'a list \<Rightarrow> int \<Rightarrow> int \<Rightarrow> 'a list" where
  "py_slice xs lo hi =
     (let n = int (length xs);
          a = (if lo < 0 then max 0 (lo + n) else min lo n);
          b = (if hi < 0 then max 0 (hi + n) else min hi n)
      in take (nat (b - a)) (drop (nat a) xs))"

text \<open>\<^verbatim>\<open>min(xs)\<close> and \<^verbatim>\<open>max(xs)\<close> of a non-empty list.\<close>

definition min_of :: "int list \<Rightarrow> int" where
  "min_of xs = fold min (tl xs) (hd xs)"

definition max_of :: "int list \<Rightarrow> int" where
  "max_of xs = fold max (tl xs) (hd xs)"

text \<open>
  The object built by \<^verbatim>\<open>type('AccountsInfo', (), {...})()\<close>. \<open>order\<close> keeps the labels
  \<^verbatim>\<open>start_idx + i\<close> that the source joins into one string.
\<close>

record AccountsInfo =
  accounts :: "string list"
  start_index :: int
  end_index :: int
  order :: "int list"

definition get_accounts_to_process ::
  "Config \<Rightarrow> string list \<Rightarrow> world \<Rightarrow> AccountsInfo \<times> world" where
  "get_accounts_to_process config private_keys w =
     (let (start_idx, end_idx) = ACCOUNTS_RANGE (SETTINGS config);
          exact = EXACT_ACCOUNTS_TO_USE (SETTINGS config);
          (selected, start_idx, end_idx) =
            (if start_idx = 0 \<and> end_idx = 0 then
               if exact \<noteq> [] then
                 (let indices = map (\<lambda>i. i - 1) exact
                  in (map (\<lambda>i. private_keys ! nat i)
                        (filter (\<lambda>i. 0 \<le> i \<and> i < int (length private_keys)) indices),
                      min_of exact, max_of exact))
               else (private_keys, 1, int (length private_keys))
             else (py_slice private_keys (max 0 (start_idx - 1)) end_idx, start_idx, end_idx));
          (indices, w') = shuffle [0..<length selected] w
      in (\<lparr>accounts = map (\<lambda>i. selected ! i) indices,
           start_index = start_idx, end_index = end_idx,
           order = map (\<lambda>i. start_idx + int i) indices\<rparr>, w'))"

text \<open>
  \<^verbatim>\<open>[items[i % len(items)] for i in range(length)]\<close>: the modulus raises
  \<^verbatim>\<open>ZeroDivisionError\<close> on an empty \<open>items\<close> as soon as the range is non-empty.
\<close>

definition cycle_list :: "'a list \<Rightarrow> int \<Rightarrow> exn + 'a list" where
  "cycle_list items len =
     (if 0 < len \<and> items = [] then Inl ZeroDivisionError
      else Inr (map (\<lambda>i. items ! (i mod length items)) [0..<nat len]))"

section \<open>\<^verbatim>\<open>process.py\<close>: pauses and the retry executor\<close>

definition random_sleep :: "int \<times> int \<Rightarrow> pause_site \<Rightarrow> unit io" where
  "random_sleep range_seconds site w =
     (case randint range_seconds w of
        (Inl e, w1) \<Rightarrow> (Inl e, w1)
      | (Inr pause, w1) \<Rightarrow> (Inr (), w1\<lparr>trace := trace w1 @ [Slept site pause]\<rparr>))"

text \<open>
  The two tests on the result of an attempt, in the order of the source:
  \<^verbatim>\<open>isinstance(result, tuple) and result[0] is True\<close>, whose subscript raises
  \<^verbatim>\<open>IndexError\<close> on the empty tuple, then \<^verbatim>\<open>isinstance(result, bool) and result\<close>.
\<close>

fun attempt_succeeded :: "pyval \<Rightarrow> exn + bool" where
  "attempt_succeeded (PTuple []) = Inl IndexError"
| "attempt_succeeded (PTuple (x # xs)) = Inr (x = PBool True)"
| "attempt_succeeded (PBool b) = Inr b"
| "attempt_succeeded v = Inr False"

text \<open>
  The body of \<^verbatim>\<open>for attempt in range(config.SETTINGS.ATTEMPTS)\<close>, by recursion on the
  attempt numbers still to run. Nothing here catches an exception: one raised by the
  operation, by the subscript or by \<^verbatim>\<open>random.randint\<close> leaves the executor.
\<close>

fun retry_loop ::
  "pyval io \<Rightarrow> Config \<Rightarrow> int \<times> string \<Rightarrow> int list \<Rightarrow> bool io" where
  "retry_loop function config log_prefix [] w = (Inr False, w)"
| "retry_loop function config log_prefix (attempt # rest) w =
     (case function (w\<lparr>trace := trace w @ [Invoked log_prefix]\<rparr>) of
        (Inl e, w1) \<Rightarrow> (Inl e, w1)
      | (Inr result, w1) \<Rightarrow>
          (case attempt_succeeded result of
             Inl e \<Rightarrow> (Inl e, w1)
           | Inr True \<Rightarrow> (Inr True, w1)
           | Inr False \<Rightarrow>
               if attempt < ATTEMPTS (SETTINGS config) - 1 then
                 (case random_sleep (PAUSE_BETWEEN_ATTEMPTS (SETTINGS config)) Attempt_pause w1 of
                    (Inl e, w2) \<Rightarrow> (Inl e, w2)
                  | (Inr u, w2) \<Rightarrow> retry_loop function config log_prefix rest w2)
               else retry_loop function config log_prefix rest w1))"

definition py_range :: "int \<Rightarrow> int list" where
  "py_range n = map int [0..<nat n]"

definition execute_with_retries :: "pyval io \<Rightarrow> Config \<Rightarrow> int \<times> string \<Rightarrow> bool io" where
  "execute_with_retries function config log_prefix =
     retry_loop function config log_prefix (py_range (ATTEMPTS (SETTINGS config)))"

section \<open>\<^verbatim>\<open>src/model/start.py\<close>: the two operations of a pipeline\<close>

text \<open>
  The arguments of \<^verbatim>\<open>account_flow\<close>, which the \<^verbatim>\<open>Start\<close> instance stores unchanged.
\<close>

record account_input =
  account_index :: int
  proxy :: string
  private_key :: string
  discord_token :: string
  email :: string

text \<open>
  The collaborators outside the orchestration core, each answering from the state of the
  run so far: \<^verbatim>\<open>create_client(proxy)\<close> returns a client or raises; the constructor
  \<^verbatim>\<open>MonadXYZ(...)\<close> may raise (\<^verbatim>\<open>Account.from_key\<close>); \<open>swaps\<close> is the boolean that
  \<^verbatim>\<open>MonadXYZ.swaps(type=...)\<close> returns (it catches every exception of its handler and
  returns false); \<open>wallet_stats\<close> is the exception, if any, that the \<^verbatim>\<open>try\<close> body of
  \<^verbatim>\<open>Start._logs_task\<close> raises and the handler re-raises.
\<close>

record env =
  create_client :: "string \<Rightarrow> world \<Rightarrow> exn + client"
  MonadXYZ_init :: "world \<Rightarrow> exn option"
  swaps :: "string \<Rightarrow> world \<Rightarrow> bool"
  wallet_stats :: "world \<Rightarrow> exn option"

definition initialize :: "env \<Rightarrow> account_input \<Rightarrow> pyval io" where
  "initialize ev self w =
     (case create_client ev (proxy self) w of
        Inr c \<Rightarrow> (Inr (PBool True), w\<lparr>session := Some c\<rparr>)
      | Inl e \<Rightarrow> (Inr (PBool False), w))"

text \<open>The planning loop of \<^verbatim>\<open>Start.flow\<close>, over \<^verbatim>\<open>enumerate(self.config.FLOW.TASKS, 1)\<close>.\<close>

fun plan_tasks :: "nat \<Rightarrow> task_item list \<Rightarrow> (nat \<times> string) list io" where
  "plan_tasks i [] w = (Inr [], w)"
| "plan_tasks i (Alternatives task_item # items) w =
     (case choice task_item w of
        (Inl e, w1) \<Rightarrow> (Inl e, w1)
      | (Inr selected_task, w1) \<Rightarrow>
          (case plan_tasks (Suc i) items w1 of
             (Inl e, w2) \<Rightarrow> (Inl e, w2)
           | (Inr planned, w2) \<Rightarrow> (Inr ((i, selected_task) # planned), w2)))"
| "plan_tasks i (Single task_item # items) w =
     (case plan_tasks (Suc i) items w of
        (Inl e, w2) \<Rightarrow> (Inl e, w2)
      | (Inr planned, w2) \<Rightarrow> (Inr ((i, task_item) # planned), w2))"

text \<open>\<^verbatim>\<open>str.lower\<close> on the ASCII letters.\<close>

definition lower_char :: "char \<Rightarrow> char" where
  "lower_char c =
     (let n = (of_char c :: nat) in if 65 \<le> n \<and> n \<le> 90 then char_of (n + 32) else c)"

definition lower :: "string \<Rightarrow> string" where
  "lower s = map lower_char s"

definition logs_task :: "env \<Rightarrow> unit io" where
  "logs_task ev w = (case wallet_stats ev w of Some e \<Rightarrow> (Inl e, w) | None \<Rightarrow> (Inr (), w))"

text \<open>
  \<^verbatim>\<open>Start._execute_task\<close>: the handler table has the keys \<^verbatim>\<open>"izumi"\<close> and \<^verbatim>\<open>"logs"\<close>.
  \<^verbatim>\<open>await handler()\<close> drops what the handler returns.
\<close>

definition execute_task :: "env \<Rightarrow> string \<Rightarrow> unit io" where
  "execute_task ev task w =
     (if task = ''izumi'' then
        (let result = swaps ev ''izumi'' (w\<lparr>trace := trace w @ [Executed task]\<rparr>)
         in (Inr (), w\<lparr>trace := trace w @ [Executed task]\<rparr>))
      else if task = ''logs'' then logs_task ev (w\<lparr>trace := trace w @ [Executed task]\<rparr>)
      else (Inr (), w\<lparr>trace := trace w @ [Unknown_task task]\<rparr>))"

text \<open>The execution loop of \<^verbatim>\<open>Start.flow\<close>: lower-case, execute, sleep.\<close>

fun run_tasks :: "env \<Rightarrow> Config \<Rightarrow> (nat \<times> string) list \<Rightarrow> unit io" where
  "run_tasks ev config [] w = (Inr (), w)"
| "run_tasks ev config ((i, task) # planned) w =
     (case execute_task ev (lower task) w of
        (Inl e, w1) \<Rightarrow> (Inl e, w1)
      | (Inr u, w1) \<Rightarrow>
          (case random_sleep (RANDOM_PAUSE_BETWEEN_ACTIONS (SETTINGS config)) Action_pause w1 of
             (Inl e, w2) \<Rightarrow> (Inl e, w2)
           | (Inr u, w2) \<Rightarrow> run_tasks ev config planned w2))"

text \<open>
  \<^verbatim>\<open>Start.flow\<close>: the whole body stands in one \<^verbatim>\<open>try\<close> whose handler returns
  \<^verbatim>\<open>False\<close>, so the operation itself never raises.
\<close>

definition flow_body :: "env \<Rightarrow> Config \<Rightarrow> bool io" where
  "flow_body ev config w =
     (if session w = None then (Inr False, w)
      else
        (case MonadXYZ_init ev w of
           Some e \<Rightarrow> (Inl e, w)
         | None \<Rightarrow>
             (case plan_tasks 1 (TASKS (FLOW config)) w of
                (Inl e, w1) \<Rightarrow> (Inl e, w1)
              | (Inr planned_tasks, w1) \<Rightarrow>
                  (case run_tasks ev config planned_tasks
                          (w1\<lparr>trace := trace w1 @ [Planned planned_tasks]\<rparr>) of
                     (Inl e, w2) \<Rightarrow> (Inl e, w2)
                   | (Inr u, w2) \<Rightarrow> (Inr True, w2)))))"

definition flow :: "env \<Rightarrow> Config \<Rightarrow> pyval io" where
  "flow ev config w =
     (case flow_body ev config w of
        (Inl e, w1) \<Rightarrow> (Inr (PBool False), w1)
      | (Inr b, w1) \<Rightarrow> (Inr (PBool b), w1))"

section \<open>\<^verbatim>\<open>src/utils/logs.py\<close>: the outcome reporter\<close>

text \<open>\<^verbatim>\<open>if data:\<close> skips an empty value; otherwise the value is appended as one line.\<close>

definition write_line :: "string \<Rightarrow> string list \<Rightarrow> string list" where
  "write_line data file = (if data \<noteq> [] then file @ [data] else file)"

text \<open>
  The body shared by \<^verbatim>\<open>report_success\<close> and \<^verbatim>\<open>report_error\<close>, which differ in
  \<^verbatim>\<open>base_dir\<close> only. The text of an account index is never empty, so its line is always
  written.
\<close>

definition append_record :: "string \<Rightarrow> string \<Rightarrow> int \<Rightarrow> ledger \<Rightarrow> ledger" where
  "append_record prx tok idx dir =
     \<lparr>account_indices = account_indices dir @ [idx],
      proxies = write_line prx (proxies dir),
      discord_tokens = write_line tok (discord_tokens dir)\<rparr>"

definition report_success :: "string \<Rightarrow> string \<Rightarrow> int \<Rightarrow> world \<Rightarrow> world" where
  "report_success prx tok idx w = w\<lparr>success_data := append_record prx tok idx (success_data w)\<rparr>"

definition report_error :: "string \<Rightarrow> string \<Rightarrow> int \<Rightarrow> world \<Rightarrow> world" where
  "report_error prx tok idx w = w\<lparr>error_data := append_record prx tok idx (error_data w)\<rparr>"

section \<open>\<^verbatim>\<open>process.py\<close>: the pipeline of one account\<close>

text \<open>
  The \<^verbatim>\<open>try\<close> block of \<^verbatim>\<open>account_flow\<close>. The constructor \<^verbatim>\<open>Start(...)\<close> sets
  \<^verbatim>\<open>self.session = None\<close>; \<^verbatim>\<open>success &= ...\<close> awaits the second executor whatever the
  first returned.
\<close>

definition account_flow_try :: "env \<Rightarrow> Config \<Rightarrow> account_input \<Rightarrow> unit io" where
  "account_flow_try ev config a w =
     (case random_sleep (RANDOM_INITIALIZATION_PAUSE (SETTINGS config)) Initialization_pause w of
        (Inl e, w1) \<Rightarrow> (Inl e, w1)
      | (Inr u, w1) \<Rightarrow>
          (case execute_with_retries (initialize ev a) config
                  (account_index a, ''Initialization'') (w1\<lparr>session := None\<rparr>) of
             (Inl e, w2) \<Rightarrow> (Inl e, w2)
           | (Inr init_ok, w2) \<Rightarrow>
               (case execute_with_retries (flow ev config) config (account_index a, ''Flow'') w2 of
                  (Inl e, w3) \<Rightarrow> (Inl e, w3)
                | (Inr flow_ok, w3) \<Rightarrow>
                    (let success = (init_ok \<and> flow_ok);
                         w4 = (if success
                               then report_success (proxy a) (discord_token a) (account_index a) w3
                               else report_error (proxy a) (discord_token a) (account_index a) w3)
                     in random_sleep (RANDOM_PAUSE_BETWEEN_ACCOUNTS (SETTINGS config))
                          Account_pause w4))))"

text \<open>\<^verbatim>\<open>except Exception\<close>: whatever the \<^verbatim>\<open>try\<close> block raises, report an error.\<close>

definition account_flow :: "env \<Rightarrow> Config \<Rightarrow> account_input \<Rightarrow> world \<Rightarrow> world" where
  "account_flow ev config a w =
     (case account_flow_try ev config a w of
        (Inl err, w1) \<Rightarrow> report_error (proxy a) (discord_token a) (account_index a) w1
      | (Inr u, w1) \<Rightarrow> w1)"

section \<open>\<^verbatim>\<open>process.py\<close>: the batch entry point\<close>







section \<open>\<^verbatim>\<open>process.py\<close>: admission through the semaphore\<close>

text \<open>
  \<^verbatim>\<open>start\<close> creates one \<^verbatim>\<open>asyncio.Semaphore(config.SETTINGS.THREADS)\<close> and one task
  per account; each task is \<^verbatim>\<open>_launch_account\<close>, that is
  \<^verbatim>\<open>async with semaphore: await account_flow(...)\<close>. A task is waiting for the semaphore,
  inside the \<^verbatim>\<open>async with\<close> block, or done. \<open>permits\<close> is the counter of the semaphore:
  acquiring needs a positive counter and decrements it, leaving the block increments it.
  The event loop may run the enabled steps of the tasks in any order.
\<close>

datatype phase = Waiting | Admitted | Finished

record batch =
  permits :: nat
  phases :: "phase list"

definition launch_all :: "int \<Rightarrow> nat \<Rightarrow> batch" where
  "launch_all threads n = \<lparr>permits = nat threads, phases = replicate n Waiting\<rparr>"

inductive step :: "batch \<Rightarrow> batch \<Rightarrow> bool" where
  acquire: "i < length (phases s) \<Longrightarrow> phases s ! i = Waiting \<Longrightarrow> 0 < permits s \<Longrightarrow>
            step s (s\<lparr>permits := permits s - 1, phases := (phases s)[i := Admitted]\<rparr>)"
| progress: "i < length (phases s) \<Longrightarrow> phases s ! i = Admitted \<Longrightarrow> step s s"
| release: "i < length (phases s) \<Longrightarrow> phases s ! i = Admitted \<Longrightarrow>
            step s (s\<lparr>permits := permits s + 1, phases := (phases s)[i := Finished]\<rparr>)"

inductive reachable :: "int \<Rightarrow> nat \<Rightarrow> batch \<Rightarrow> bool" where
  launched: "reachable threads n (launch_all threads n)"
| stepped: "reachable threads n s \<Longrightarrow> step s s' \<Longrightarrow> reachable threads n s'"

definition admitted :: "batch \<Rightarrow> nat" where
  "admitted s = count_list (phases s) Admitted"

section \<open>Reading a run\<close>

text \<open>
  The defaults of \<^verbatim>\<open>_create_settings_config\<close> and \<^verbatim>\<open>_create_flow_config\<close> in
  \<^verbatim>\<open>src/utils/config.py\<close>, and a run that has not started.
\<close>

definition default_settings :: SettingsConfig where
  "default_settings =
     \<lparr>THREADS = 1, ATTEMPTS = 3, ACCOUNTS_RANGE = (0, 0), EXACT_ACCOUNTS_TO_USE = [],
      PAUSE_BETWEEN_ATTEMPTS = (5, 10), RANDOM_PAUSE_BETWEEN_ACCOUNTS = (5, 15),
      RANDOM_PAUSE_BETWEEN_ACTIONS = (1, 3), RANDOM_INITIALIZATION_PAUSE = (5, 10)\<rparr>"

definition default_config :: Config where
  "default_config = \<lparr>SETTINGS = default_settings, FLOW = \<lparr>TASKS = []\<rparr>\<rparr>"

definition empty_ledger :: ledger where
  "empty_ledger = \<lparr>account_indices = [], proxies = [], discord_tokens = []\<rparr>"

definition fresh_world :: "(nat \<Rightarrow> nat) \<Rightarrow> world" where
  "fresh_world r =
     \<lparr>rnd = r, rpos = 0, trace = [], session = None,
      success_data = empty_ledger, error_data = empty_ledger\<rparr>"

text \<open>A pause range \<open>(min, max)\<close> that \<^verbatim>\<open>random.randint\<close> accepts.\<close>

definition well_formed :: "int \<times> int \<Rightarrow> bool" where
  "well_formed r = (fst r \<le> snd r)"

text \<open>
  What the retry executor did, read off the trace: its invocations of the operation and
  its own pauses, in order. Everything else in the trace belongs to the operation.
\<close>

datatype retry_step = Attempt | Pause

fun retry_view :: "event list \<Rightarrow> retry_step list" where
  "retry_view [] = []"
| "retry_view (Invoked p # es) = Attempt # retry_view es"
| "retry_view (Slept Attempt_pause d # es) = Pause # retry_view es"
| "retry_view (e # es) = retry_view es"

definition invocations :: "world \<Rightarrow> nat" where
  "invocations w = count_list (retry_view (trace w)) Attempt"

text \<open>
  \<open>j\<close> invocations with a pause between any two of them and none after the last:
  \<open>j\<close> attempts and \<open>j - 1\<close> pauses.
\<close>

definition run_shape :: "nat \<Rightarrow> retry_step list" where
  "run_shape j = concat (replicate (j - 1) [Attempt, Pause]) @ [Attempt]"

text \<open>
  Success of an invocation in the words of the specification: it returned the boolean
  true, or a tuple whose first component is true.
\<close>

fun signals_success :: "pyval \<Rightarrow> bool" where
  "signals_success (PBool b) = b"
| "signals_success (PTuple (x # xs)) = (x = PBool True)"
| "signals_success v = False"

text \<open>
  The trace of an executor whose operation leaves the state alone: an invocation, then
  for each pause duration the pause and the next invocation.
\<close>

fun quiet_run :: "int \<times> string \<Rightarrow> int list \<Rightarrow> event list" where
  "quiet_run p [] = [Invoked p]"
| "quiet_run p (d # ds) = Invoked p # Slept Attempt_pause d # quiet_run p ds"





text \<open>
  Three behaviours of the collaborators: everything works; no client can be created; the
  client is created but the logs task raises. And the first account of a batch.
\<close>

definition working_env :: env where
  "working_env =
     \<lparr>create_client = (\<lambda>prx w. Inr (AsyncClient prx)), MonadXYZ_init = (\<lambda>w. None),
      swaps = (\<lambda>kind w. True), wallet_stats = (\<lambda>w. None)\<rparr>"

definition unreachable_env :: env where
  "unreachable_env = working_env\<lparr>create_client := (\<lambda>prx w. Inl (OtherError ''connect''))\<rparr>"


definition first_account :: account_input where
  "first_account =
     \<lparr>account_index = 1, proxy = ''p1'', private_key = ''k1'', discord_token = ''t1'', email = []\<rparr>"


section \<open>Properties of the resource cycler and the account selector\<close>

text \<open>
  C8. For a non-empty source of length \<open>m\<close> and a target length \<open>n > 0\<close>, the resource
  cycler \<^verbatim>\<open>_cycle_list\<close> returns a list of length exactly \<open>n\<close> whose element at position
  \<open>i\<close> is \<open>source[i mod m]\<close>, for every \<open>i\<close> in \<open>[0, n)\<close>.
\<close>

theorem cycle_list_spec:
  assumes "0 < n" and "items \<noteq> []"
  shows "\<exists>ys. cycle_list items n = Inr ys \<and> int (length ys) = n \<and>
           (\<forall>i < length ys. ys ! i = items ! (i mod length items))"
  using assms by (simp add: cycle_list_def)

theorem cycle_list_spec_witness:
  "(0::int) < 5 \<and> [''p1'', ''p2''] \<noteq> [] \<and>
   (\<exists>ys. cycle_list [''p1'', ''p2''] 5 = Inr ys \<and> int (length ys) = 5 \<and> ys ! 3 = ''p2'')"
proof -
  have h: "(0::int) < 5" "[''p1'', ''p2''] \<noteq> ([]::string list)" by simp_all
  from cycle_list_spec [OF h] obtain ys where
    ys: "cycle_list [''p1'', ''p2''] 5 = Inr ys" "int (length ys) = 5"
        "\<forall>i < length ys. ys ! i = [''p1'', ''p2''] ! (i mod length [''p1'', ''p2''])" by blast
  from ys(2) have "3 < length ys" by simp
  with ys(3) have "ys ! 3 = [''p1'', ''p2''] ! (3 mod length [''p1'', ''p2''])" by blast
  also have "\<dots> = ''p2''" by code_simp
  finally show ?thesis using ys h by blast
qed

text \<open>\<^verbatim>\<open>random.shuffle\<close> permutes its argument, whatever the generator answers.\<close>

lemma shuffle_from_Nil: "fst (shuffle_from n [] w) = []"
  by (induction n arbitrary: w) (simp_all add: Let_def)

lemma shuffle_from_mset:
  "n < length x \<Longrightarrow> mset (fst (shuffle_from n x w)) = mset x"
proof (induction n arbitrary: x w)
  case 0
  then show ?case by simp
next
  case (Suc n)
  let ?j = "rnd w (rpos w) mod (Suc n + 1)"
  have "?j < Suc n + 1" by (rule mod_less_divisor) simp
  with Suc.prems have j: "?j < length x" by linarith
  let ?x' = "x[Suc n := x ! ?j, ?j := x ! Suc n]"
  have "mset ?x' = mset x" using Suc.prems j by (simp add: mset_swap)
  moreover have "n < length ?x'" using Suc.prems by simp
  ultimately show ?case using Suc.IH [of ?x'] by (simp add: Let_def)
qed

lemma shuffle_mset: "mset (fst (shuffle x w)) = mset x"
proof (cases x)
  case Nil
  then show ?thesis by (simp add: shuffle_def shuffle_from_Nil)
next
  case (Cons a list)
  then show ?thesis by (simp add: shuffle_def shuffle_from_mset)
qed

text \<open>
  Every index of the shuffled \<^verbatim>\<open>range(len(accounts))\<close> is in range, so the final
  comprehension \<^verbatim>\<open>[accounts[i] for i in indices]\<close> rearranges the selection.
\<close>

lemma shuffled_positions:
  assumes "mset indices = mset [0..<length xs]"
  shows "mset (map (\<lambda>i. xs ! i) indices) = mset xs"
proof -
  have "mset (map (\<lambda>i. xs ! i) indices) = image_mset (\<lambda>i. xs ! i) (mset indices)" by simp
  also have "\<dots> = mset (map (\<lambda>i. xs ! i) [0..<length xs])" using assms by simp
  also have "\<dots> = mset xs" by (simp add: map_nth)
  finally show ?thesis .
qed

lemma min_of_Min: "xs \<noteq> [] \<Longrightarrow> min_of xs = Min (set xs)"
  by (cases xs) (simp_all add: min_of_def Min.set_eq_fold [symmetric])

lemma max_of_Max: "xs \<noteq> [] \<Longrightarrow> max_of xs = Max (set xs)"
  by (cases xs) (simp_all add: max_of_def Max.set_eq_fold [symmetric])

lemma in_bounds_filter:
  "map (\<lambda>i. keys ! nat i) (filter (\<lambda>i. 0 \<le> i \<and> i < int (length keys)) (map (\<lambda>i. i - 1) exact))
   = map (\<lambda>i. keys ! nat (i - 1)) (filter (\<lambda>i. 1 \<le> i \<and> i \<le> int (length keys)) exact)"
  by (induction exact) auto

text \<open>
  C7. With the degenerate range \<open>(0, 0)\<close> and a non-empty explicit index list, the account
  selector returns exactly the accounts at the configured 1-based indices that lie in
  \<open>[1, m]\<close> (in the shuffled launch order, so the equality is one of multisets), and
  reports as start and end the minimum and the maximum of the configured indices, not of
  the indices kept.
\<close>

theorem explicit_accounts_selected:
  assumes "ACCOUNTS_RANGE (SETTINGS config) = (0, 0)"
    and "EXACT_ACCOUNTS_TO_USE (SETTINGS config) \<noteq> []"
  shows "mset (accounts (fst (get_accounts_to_process config private_keys w))) =
           mset (map (\<lambda>i. private_keys ! nat (i - 1))
                  (filter (\<lambda>i. 1 \<le> i \<and> i \<le> int (length private_keys))
                     (EXACT_ACCOUNTS_TO_USE (SETTINGS config)))) \<and>
         start_index (fst (get_accounts_to_process config private_keys w)) =
           Min (set (EXACT_ACCOUNTS_TO_USE (SETTINGS config))) \<and>
         end_index (fst (get_accounts_to_process config private_keys w)) =
           Max (set (EXACT_ACCOUNTS_TO_USE (SETTINGS config)))"
proof -
  let ?exact = "EXACT_ACCOUNTS_TO_USE (SETTINGS config)"
  let ?selected = "map (\<lambda>i. private_keys ! nat i)
     (filter (\<lambda>i. 0 \<le> i \<and> i < int (length private_keys)) (map (\<lambda>i. i - 1) ?exact))"
  let ?indices = "fst (shuffle [0..<length ?selected] w)"
  have info: "fst (get_accounts_to_process config private_keys w) =
      \<lparr>accounts = map (\<lambda>i. ?selected ! i) ?indices, start_index = min_of ?exact,
       end_index = max_of ?exact, order = map (\<lambda>i. min_of ?exact + int i) ?indices\<rparr>"
    using assms by (simp add: get_accounts_to_process_def Let_def split_def)
  have "mset (map (\<lambda>i. ?selected ! i) ?indices) = mset ?selected"
    by (rule shuffled_positions) (rule shuffle_mset)
  then have "mset (accounts (fst (get_accounts_to_process config private_keys w))) =
      mset (map (\<lambda>i. private_keys ! nat (i - 1))
             (filter (\<lambda>i. 1 \<le> i \<and> i \<le> int (length private_keys)) ?exact))"
    by (simp only: info in_bounds_filter AccountsInfo.simps)
  moreover have "start_index (fst (get_accounts_to_process config private_keys w)) = Min (set ?exact)"
    using assms(2) by (simp add: info min_of_Min)
  moreover have "end_index (fst (get_accounts_to_process config private_keys w)) = Max (set ?exact)"
    using assms(2) by (simp add: info max_of_Max)
  ultimately show ?thesis by blast
qed

text \<open>
  The explicit list \<open>[2, 5, 99]\<close> against ten accounts: the accounts at positions 2 and 5
  only, with start 2 and end 99, for every state of the random generator.
\<close>

theorem explicit_accounts_selected_witness:
  "\<forall>w. mset (accounts (fst (get_accounts_to_process
            (default_config\<lparr>SETTINGS := default_settings\<lparr>EXACT_ACCOUNTS_TO_USE := [2, 5, 99]\<rparr>\<rparr>)
            [''k1'', ''k2'', ''k3'', ''k4'', ''k5'', ''k6'', ''k7'', ''k8'', ''k9'', ''k10''] w))) =
          {#''k2'', ''k5''#} \<and>
        start_index (fst (get_accounts_to_process
            (default_config\<lparr>SETTINGS := default_settings\<lparr>EXACT_ACCOUNTS_TO_USE := [2, 5, 99]\<rparr>\<rparr>)
            [''k1'', ''k2'', ''k3'', ''k4'', ''k5'', ''k6'', ''k7'', ''k8'', ''k9'', ''k10''] w)) = 2 \<and>
        end_index (fst (get_accounts_to_process
            (default_config\<lparr>SETTINGS := default_settings\<lparr>EXACT_ACCOUNTS_TO_USE := [2, 5, 99]\<rparr>\<rparr>)
            [''k1'', ''k2'', ''k3'', ''k4'', ''k5'', ''k6'', ''k7'', ''k8'', ''k9'', ''k10''] w)) = 99"
proof
  fix w
  let ?config = "default_config\<lparr>SETTINGS := default_settings\<lparr>EXACT_ACCOUNTS_TO_USE := [2, 5, 99]\<rparr>\<rparr>"
  have range: "ACCOUNTS_RANGE (SETTINGS ?config) = (0, 0)"
    by (simp add: default_config_def default_settings_def)
  have exact: "EXACT_ACCOUNTS_TO_USE (SETTINGS ?config) = [2, 5, 99]"
    by (simp add: default_config_def default_settings_def)
  then have nonempty: "EXACT_ACCOUNTS_TO_USE (SETTINGS ?config) \<noteq> []" by simp
  show "mset (accounts (fst (get_accounts_to_process ?config
            [''k1'', ''k2'', ''k3'', ''k4'', ''k5'', ''k6'', ''k7'', ''k8'', ''k9'', ''k10''] w))) =
          {#''k2'', ''k5''#} \<and>
        start_index (fst (get_accounts_to_process ?config
            [''k1'', ''k2'', ''k3'', ''k4'', ''k5'', ''k6'', ''k7'', ''k8'', ''k9'', ''k10''] w)) = 2 \<and>
        end_index (fst (get_accounts_to_process ?config
            [''k1'', ''k2'', ''k3'', ''k4'', ''k5'', ''k6'', ''k7'', ''k8'', ''k9'', ''k10''] w)) = 99"
    using explicit_accounts_selected [OF range nonempty,
        of "[''k1'', ''k2'', ''k3'', ''k4'', ''k5'', ''k6'', ''k7'', ''k8'', ''k9'', ''k10'']" w]
    by (simp add: exact)
qed

section \<open>Properties of the batch entry point\<close>









section \<open>Properties of the admission gate\<close>

lemma count_admit:
  "i < length xs \<Longrightarrow> xs ! i = Waiting \<Longrightarrow>
   count_list (xs[i := Admitted]) Admitted = Suc (count_list xs Admitted)"
  by (induction xs arbitrary: i) (auto simp add: nth_Cons split: nat.splits)

lemma count_finish:
  "i < length xs \<Longrightarrow> xs ! i = Admitted \<Longrightarrow>
   Suc (count_list (xs[i := Finished]) Admitted) = count_list xs Admitted"
  by (induction xs arbitrary: i) (auto simp add: nth_Cons split: nat.splits)

lemma step_invariant:
  assumes "step s s'"
  shows "permits s' + admitted s' = permits s + admitted s"
  using assms
proof cases
  case (acquire i)
  then show ?thesis using count_admit [of i "phases s"] by (simp add: admitted_def)
next
  case (progress i)
  then show ?thesis by simp
next
  case (release i)
  then show ?thesis using count_finish [of i "phases s"] by (simp add: admitted_def)
qed

lemma reachable_invariant:
  "reachable threads n s \<Longrightarrow> permits s + admitted s = nat threads"
proof (induction rule: reachable.induct)
  case (launched threads n)
  then show ?case by (simp add: launch_all_def admitted_def)
next
  case (stepped threads n s s')
  then show ?case using step_invariant by simp
qed

text \<open>
  C9. In every state that a batch with \<^verbatim>\<open>THREADS \<ge> 1\<close> can reach, under any interleaving
  of the steps of its pipelines, the number of pipelines inside the
  \<^verbatim>\<open>async with semaphore\<close> block is at most \<^verbatim>\<open>THREADS\<close>.
\<close>

theorem admitted_bounded:
  assumes "1 \<le> threads" and "reachable threads n s"
  shows "int (admitted s) \<le> threads"
  using reachable_invariant [OF assms(2)] assms(1) by linarith


theorem admitted_bounded_witness:
  "(1::int) \<le> 2 \<and> reachable 2 3 \<lparr>permits = 0, phases = [Admitted, Admitted, Waiting]\<rparr> \<and>
   int (admitted \<lparr>permits = 0, phases = [Admitted, Admitted, Waiting]\<rparr>) \<le> 2"
proof -
  let ?s0 = "\<lparr>permits = 2, phases = [Waiting, Waiting, Waiting]\<rparr>"
  let ?s1 = "\<lparr>permits = 1, phases = [Admitted, Waiting, Waiting]\<rparr>"
  let ?s2 = "\<lparr>permits = 0, phases = [Admitted, Admitted, Waiting]\<rparr>"
  have "launch_all 2 3 = ?s0" by (simp add: launch_all_def numeral_3_eq_3)
  then have r0: "reachable 2 3 ?s0" using launched [of 2 3] by simp
  have "step ?s0 ?s1" using acquire [of 0 ?s0] by simp
  with r0 have r1: "reachable 2 3 ?s1" by (rule stepped)
  have "step ?s1 ?s2" using acquire [of 1 ?s1] by simp
  with r1 have r2: "reachable 2 3 ?s2" by (rule stepped)
  have one: "(1::int) \<le> 2" by simp
  from admitted_bounded [OF one r2] show ?thesis using one r2 by simp
qed


section \<open>Properties of the retry executor\<close>

text \<open>
  The operation handed to the executor is any state transformer. Two conditions tie it to
  the reading of the trace: it leaves the executor's own entries alone (it writes no
  \<open>Invoked\<close> and no attempt pause), and what it does on its \<open>i\<close>-th invocation is
  stated for every state in which \<open>i\<close> invocations have been recorded.
\<close>

lemma retry_view_append: "retry_view (xs @ ys) = retry_view xs @ retry_view ys"
  by (induction xs rule: retry_view.induct) simp_all

lemma attempt_succeeded_signals:
  "v \<noteq> PTuple [] \<Longrightarrow> attempt_succeeded v = Inr (signals_success v)"
  by (cases v rule: attempt_succeeded.cases) simp_all

lemma random_sleep_well_formed:
  assumes "well_formed r"
  shows "\<exists>d. random_sleep r site w =
           (Inr (), w\<lparr>rpos := Suc (rpos w), trace := trace w @ [Slept site d]\<rparr>)"
proof (cases r)
  case (Pair a b)
  then have "random_sleep r site w = (Inr (), w\<lparr>rpos := Suc (rpos w),
      trace := trace w @ [Slept site (a + int (rnd w (rpos w) mod nat (b - a + 1)))]\<rparr>)"
    using assms by (simp add: random_sleep_def randint_def well_formed_def)
  then show ?thesis by blast
qed

lemma random_sleep_inverted:
  assumes "\<not> well_formed r"
  shows "random_sleep r site w = (Inl ValueError, w)"
  using assms by (cases r) (simp add: random_sleep_def randint_def well_formed_def)

lemma invocations_Invoked:
  "invocations (w\<lparr>trace := trace w @ [Invoked p]\<rparr>) = Suc (invocations w)"
  by (simp add: invocations_def retry_view_append)

lemma attempts_Cons: "a < k \<Longrightarrow> map int [a..<k] = int a # map int [Suc a..<k]"
  by (subst upt_rec) simp

lemma retry_prefix:
  assumes att: "ATTEMPTS (SETTINGS config) = int k"
    and rng: "well_formed (PAUSE_BETWEEN_ATTEMPTS (SETTINGS config))"
    and frame: "\<forall>w. retry_view (trace (snd (function w))) = retry_view (trace w)"
  shows "a + d < k \<Longrightarrow> invocations w = c \<Longrightarrow>
     (\<forall>w i. 1 \<le> i \<and> i \<le> d \<and> invocations w = c + i \<longrightarrow>
        (\<exists>v. fst (function w) = Inr v \<and> attempt_succeeded v = Inr False)) \<Longrightarrow>
     \<exists>w'. retry_loop function config p (map int [a..<k]) w =
             retry_loop function config p (map int [a + d..<k]) w' \<and>
          retry_view (trace w') = retry_view (trace w) @ concat (replicate d [Attempt, Pause]) \<and>
          invocations w' = c + d"
proof (induction d arbitrary: a w c)
  case 0
  then show ?case by auto
next
  case (Suc d)
  let ?w0 = "w\<lparr>trace := trace w @ [Invoked p]\<rparr>"
  have inv0: "invocations ?w0 = c + 1" using Suc.prems(2) by (simp add: invocations_Invoked)
  have "1 \<le> (1::nat) \<and> 1 \<le> Suc d \<and> invocations ?w0 = c + 1" using inv0 by simp
  with Suc.prems(3) [rule_format, of 1 ?w0] obtain v where
    v: "fst (function ?w0) = Inr v" "attempt_succeeded v = Inr False" by blast
  obtain w1 where w1: "function ?w0 = (Inr v, w1)" using v(1) by (cases "function ?w0") simp
  have view1: "retry_view (trace w1) = retry_view (trace w) @ [Attempt]"
    using frame [rule_format, of ?w0] w1 by (simp add: retry_view_append)
  from random_sleep_well_formed [OF rng] obtain dd where
    dd: "random_sleep (PAUSE_BETWEEN_ATTEMPTS (SETTINGS config)) Attempt_pause w1 =
           (Inr (), w1\<lparr>rpos := Suc (rpos w1), trace := trace w1 @ [Slept Attempt_pause dd]\<rparr>)"
    by blast
  define w2 where "w2 = w1\<lparr>rpos := Suc (rpos w1), trace := trace w1 @ [Slept Attempt_pause dd]\<rparr>"
  have view2: "retry_view (trace w2) = retry_view (trace w) @ [Attempt, Pause]"
    by (simp add: w2_def retry_view_append view1)
  have inv2: "invocations w2 = c + 1"
    using Suc.prems(2) by (simp add: invocations_def view2)
  have lt: "a < k" "int a < int k - 1" using Suc.prems(1) by simp_all
  have unfold: "retry_loop function config p (map int [a..<k]) w =
      retry_loop function config p (map int [Suc a..<k]) w2"
    using lt(2) w1 v(2) dd att by (simp add: attempts_Cons [OF lt(1)] w2_def)
  have fails': "\<forall>w i. 1 \<le> i \<and> i \<le> d \<and> invocations w = (c + 1) + i \<longrightarrow>
        (\<exists>v. fst (function w) = Inr v \<and> attempt_succeeded v = Inr False)"
  proof (intro allI impI)
    fix w' i
    assume "1 \<le> i \<and> i \<le> d \<and> invocations w' = (c + 1) + i"
    then have "1 \<le> Suc i \<and> Suc i \<le> Suc d \<and> invocations w' = c + Suc i" by simp
    with Suc.prems(3) [rule_format, of "Suc i" w']
    show "\<exists>v. fst (function w') = Inr v \<and> attempt_succeeded v = Inr False" by blast
  qed
  have "Suc a + d < k" using Suc.prems(1) by simp
  from Suc.IH [OF this inv2 fails'] obtain w' where
    w': "retry_loop function config p (map int [Suc a..<k]) w2 =
           retry_loop function config p (map int [Suc a + d..<k]) w'"
        "retry_view (trace w') = retry_view (trace w2) @ concat (replicate d [Attempt, Pause])"
        "invocations w' = c + 1 + d"
    by blast
  have "retry_loop function config p (map int [a..<k]) w =
           retry_loop function config p (map int [a + Suc d..<k]) w'"
    using unfold w'(1) by simp
  moreover have "retry_view (trace w') =
      retry_view (trace w) @ concat (replicate (Suc d) [Attempt, Pause])"
    using w'(2) view2 by simp
  moreover have "invocations w' = c + Suc d" using w'(3) by simp
  ultimately show ?case by blast
qed


lemma retry_reaches:
  assumes att: "ATTEMPTS (SETTINGS config) = int k"
    and rng: "well_formed (PAUSE_BETWEEN_ATTEMPTS (SETTINGS config))"
    and frame: "\<forall>w. retry_view (trace (snd (function w))) = retry_view (trace w)"
    and j: "1 \<le> j" "j \<le> k"
    and fails: "\<forall>w i. 1 \<le> i \<and> i < j \<and> invocations w = invocations w0 + i \<longrightarrow>
        (\<exists>v. fst (function w) = Inr v \<and> v \<noteq> PTuple [] \<and> \<not> signals_success v)"
  shows "\<exists>w'. execute_with_retries function config p w0 =
             retry_loop function config p (int (j - 1) # map int [j..<k]) w' \<and>
          retry_view (trace w') = retry_view (trace w0) @ concat (replicate (j - 1) [Attempt, Pause]) \<and>
          invocations (w'\<lparr>trace := trace w' @ [Invoked p]\<rparr>) = invocations w0 + j"
proof -
  have fails': "\<forall>w i. 1 \<le> i \<and> i \<le> j - 1 \<and> invocations w = invocations w0 + i \<longrightarrow>
        (\<exists>v. fst (function w) = Inr v \<and> attempt_succeeded v = Inr False)"
  proof (intro allI impI)
    fix w i
    assume "1 \<le> i \<and> i \<le> j - 1 \<and> invocations w = invocations w0 + i"
    then have "1 \<le> i \<and> i < j \<and> invocations w = invocations w0 + i" using j by auto
    with fails [rule_format, of i w] obtain v where
      "fst (function w) = Inr v" "v \<noteq> PTuple []" "\<not> signals_success v" by blast
    then show "\<exists>v. fst (function w) = Inr v \<and> attempt_succeeded v = Inr False"
      by (simp add: attempt_succeeded_signals)
  qed
  have "0 + (j - 1) < k" using j by simp
  from retry_prefix [OF att rng frame this refl fails', of p] obtain w' where
    w': "retry_loop function config p (map int [0..<k]) w0 =
           retry_loop function config p (map int [0 + (j - 1)..<k]) w'"
        "retry_view (trace w') = retry_view (trace w0) @ concat (replicate (j - 1) [Attempt, Pause])"
        "invocations w' = invocations w0 + (j - 1)"
    by blast
  have "map int [0 + (j - 1)..<k] = int (j - 1) # map int [j..<k]"
    using j attempts_Cons [of "j - 1" k] by simp
  moreover have "invocations (w'\<lparr>trace := trace w' @ [Invoked p]\<rparr>) = invocations w0 + j"
    using w'(3) j by (simp add: invocations_Invoked)
  ultimately show ?thesis
    using w'(1,2) att by (intro exI [of _ w']) (simp add: execute_with_retries_def py_range_def)
qed


lemma default_attempts: "ATTEMPTS (SETTINGS default_config) = int 3"
  by (simp add: default_config_def default_settings_def)

lemma default_attempt_pause: "well_formed (PAUSE_BETWEEN_ATTEMPTS (SETTINGS default_config))"
  by (simp add: default_config_def default_settings_def well_formed_def)

lemma fresh_invocations: "invocations (fresh_world r) = 0"
  by (simp add: invocations_def fresh_world_def)


lemma run_shape_2: "run_shape 2 = [Attempt, Pause, Attempt]"
  by (simp add: run_shape_def)




text \<open>
  C1, as amended. The executor catches nothing: when the operation has failed on its
  first \<open>j - 1\<close> invocations by returning and raises \<open>e\<close> on invocation \<open>j \<le> k\<close>, the
  executor raises \<open>e\<close> to its caller after exactly \<open>j\<close> invocations and \<open>j - 1\<close> pauses:
  the exception is neither retried nor turned into the result false.
\<close>

theorem exception_leaves_executor:
  assumes att: "ATTEMPTS (SETTINGS config) = int k"
    and rng: "well_formed (PAUSE_BETWEEN_ATTEMPTS (SETTINGS config))"
    and frame: "\<forall>w. retry_view (trace (snd (function w))) = retry_view (trace w)"
    and j: "1 \<le> j" "j \<le> k"
    and fails: "\<forall>w i. 1 \<le> i \<and> i < j \<and> invocations w = invocations w0 + i \<longrightarrow>
        (\<exists>v. fst (function w) = Inr v \<and> v \<noteq> PTuple [] \<and> \<not> signals_success v)"
    and raises: "\<forall>w. invocations w = invocations w0 + j \<longrightarrow> fst (function w) = Inl e"
  shows "fst (execute_with_retries function config p w0) = Inl e \<and>
         retry_view (trace (snd (execute_with_retries function config p w0))) =
           retry_view (trace w0) @ run_shape j"
proof -
  from retry_reaches [OF att rng frame j fails, of p] obtain w' where
    w': "execute_with_retries function config p w0 =
           retry_loop function config p (int (j - 1) # map int [j..<k]) w'"
        "retry_view (trace w') = retry_view (trace w0) @ concat (replicate (j - 1) [Attempt, Pause])"
        "invocations (w'\<lparr>trace := trace w' @ [Invoked p]\<rparr>) = invocations w0 + j"
    by blast
  let ?w = "w'\<lparr>trace := trace w' @ [Invoked p]\<rparr>"
  have view: "retry_view (trace (snd (function ?w))) = retry_view (trace w0) @ run_shape j"
    using frame [rule_format, of ?w] w'(2) by (simp add: retry_view_append run_shape_def)
  from raises w'(3) have "fst (function ?w) = Inl e" by blast
  then obtain w1 where w1: "function ?w = (Inl e, w1)" by (cases "function ?w") simp
  then have "execute_with_retries function config p w0 = (Inl e, w1)" using w'(1) by simp
  then show ?thesis using view w1 by simp
qed


theorem exception_leaves_executor_witness:
  "fst (execute_with_retries
          (\<lambda>w. if invocations w = 2 then (Inl (OtherError ''timeout''), w) else (Inr (PBool False), w))
          default_config (1, ''Flow'') (fresh_world (\<lambda>n. 0))) = Inl (OtherError ''timeout'') \<and>
   retry_view (trace (snd (execute_with_retries
          (\<lambda>w. if invocations w = 2 then (Inl (OtherError ''timeout''), w) else (Inr (PBool False), w))
          default_config (1, ''Flow'') (fresh_world (\<lambda>n. 0))))) = [Attempt, Pause, Attempt]"
proof -
  let ?w0 = "fresh_world (\<lambda>n. 0)"
  let ?f = "\<lambda>w. (if invocations w = 2 then (Inl (OtherError ''timeout''), w)
                  else (Inr (PBool False), w)) :: (exn + pyval) \<times> world"
  have two: "(1::nat) \<le> 2" "(2::nat) \<le> 3" by simp_all
  have frame: "\<forall>w. retry_view (trace (snd (?f w))) = retry_view (trace w)" by simp
  have fails: "\<forall>w i. 1 \<le> i \<and> i < 2 \<and> invocations w = invocations ?w0 + i \<longrightarrow>
      (\<exists>v. fst (?f w) = Inr v \<and> v \<noteq> PTuple [] \<and> \<not> signals_success v)"
    by (simp add: fresh_invocations)
  have raises: "\<forall>w. invocations w = invocations ?w0 + 2 \<longrightarrow> fst (?f w) = Inl (OtherError ''timeout'')"
    by (simp add: fresh_invocations)
  have "retry_view (trace ?w0) = []" by (simp add: fresh_world_def)
  with exception_leaves_executor [OF default_attempts default_attempt_pause frame two fails raises,
      of "(1, ''Flow'')"]
  show ?thesis by (simp add: run_shape_2)
qed

text \<open>
  C1 as stated has an operation that always raises retried three times and answered with
  false. The executor invokes it once and the exception reaches the caller.
\<close>

theorem raising_operation_counterexample:
  "execute_with_retries (\<lambda>w. (Inl (OtherError ''timeout''), w)) default_config (1, ''Flow'')
     (fresh_world (\<lambda>n. 0)) =
   (Inl (OtherError ''timeout''), (fresh_world (\<lambda>n. 0))\<lparr>trace := [Invoked (1, ''Flow'')]\<rparr>)"
  by (simp add: execute_with_retries_def py_range_def default_config_def default_settings_def
        attempts_Cons fresh_world_def)


section \<open>Properties of the pipeline when initialization fails\<close>

text \<open>
  \<^verbatim>\<open>Start.initialize\<close> and \<^verbatim>\<open>Start.flow\<close> catch every exception themselves: both
  always return a boolean to the executor.
\<close>

lemma initialize_returns: "\<exists>v. fst (initialize ev a w) = Inr (PBool v)"
  by (cases "create_client ev (proxy a) w") (auto simp add: initialize_def)

lemma flow_returns: "\<exists>v. fst (flow ev config w) = Inr (PBool v)"
proof (cases "flow_body ev config w")
  case (Pair r w1)
  then show ?thesis by (cases r) (auto simp add: flow_def)
qed

lemma quiet_retry:
  assumes att: "ATTEMPTS (SETTINGS config) = int k"
    and rng: "well_formed (PAUSE_BETWEEN_ATTEMPTS (SETTINGS config))"
    and inert: "\<forall>w. session w = None \<longrightarrow> function w = (Inr (PBool False), w)"
  shows "k - a = Suc n \<Longrightarrow> session w = None \<Longrightarrow>
     \<exists>ds w'. retry_loop function config p (map int [a..<k]) w = (Inr False, w') \<and>
        length ds = n \<and> trace w' = trace w @ quiet_run p ds \<and> session w' = None \<and>
        success_data w' = success_data w \<and> error_data w' = error_data w"
proof (induction n arbitrary: a w)
  case 0
  let ?w0 = "w\<lparr>trace := trace w @ [Invoked p]\<rparr>"
  have a: "a < k" "\<not> int a < int k - 1" "[Suc a..<k] = []" using 0(1) by auto
  have "function ?w0 = (Inr (PBool False), ?w0)" using inert 0(2) by simp
  then have "retry_loop function config p (map int [a..<k]) w = (Inr False, ?w0)"
    using a att by (simp add: attempts_Cons [OF a(1)])
  then show ?case using 0(2) by (intro exI [of _ "[]"] exI [of _ ?w0]) simp
next
  case (Suc n)
  let ?w0 = "w\<lparr>trace := trace w @ [Invoked p]\<rparr>"
  have a: "a < k" "int a < int k - 1" "k - Suc a = Suc n" using Suc.prems(1) by auto
  have f: "function ?w0 = (Inr (PBool False), ?w0)" using inert Suc.prems(2) by simp
  from random_sleep_well_formed [OF rng] obtain d where
    d: "random_sleep (PAUSE_BETWEEN_ATTEMPTS (SETTINGS config)) Attempt_pause ?w0 =
          (Inr (), ?w0\<lparr>rpos := Suc (rpos ?w0), trace := trace ?w0 @ [Slept Attempt_pause d]\<rparr>)"
    by blast
  define w2 where "w2 = ?w0\<lparr>rpos := Suc (rpos ?w0), trace := trace ?w0 @ [Slept Attempt_pause d]\<rparr>"
  have unfold: "retry_loop function config p (map int [a..<k]) w =
      retry_loop function config p (map int [Suc a..<k]) w2"
    using a(2) f d att by (simp add: attempts_Cons [OF a(1)] w2_def)
  have s2: "session w2 = None" using Suc.prems(2) by (simp add: w2_def)
  from Suc.IH [OF a(3) s2] obtain ds w' where
    w': "retry_loop function config p (map int [Suc a..<k]) w2 = (Inr False, w')"
        "length ds = n" "trace w' = trace w2 @ quiet_run p ds" "session w' = None"
        "success_data w' = success_data w2" "error_data w' = error_data w2"
    by blast
  have "trace w' = trace w @ quiet_run p (d # ds)" using w'(3) by (simp add: w2_def)
  moreover have "length (d # ds) = Suc n" using w'(2) by simp
  moreover have "success_data w' = success_data w" "error_data w' = error_data w"
    using w'(5,6) by (simp_all add: w2_def)
  ultimately show ?case using unfold w'(1,4) by metis
qed


lemma flow_without_session:
  "session w = None \<Longrightarrow> flow ev config w = (Inr (PBool False), w)"
  by (simp add: flow_def flow_body_def)

lemma initialize_without_client:
  assumes "\<forall>prx w. \<exists>e. create_client ev prx w = Inl e"
  shows "initialize ev a w = (Inr (PBool False), w)"
proof -
  from assms obtain e where "create_client ev (proxy a) w = Inl e" by blast
  then show ?thesis by (simp add: initialize_def)
qed

lemma default_ranges:
  "well_formed (RANDOM_INITIALIZATION_PAUSE (SETTINGS default_config))"
  "well_formed (RANDOM_PAUSE_BETWEEN_ACCOUNTS (SETTINGS default_config))"
  "well_formed (RANDOM_PAUSE_BETWEEN_ACTIONS (SETTINGS default_config))"
  by (simp_all add: default_config_def default_settings_def well_formed_def)

text \<open>
  C2, as amended. When the initialize phase fails on all \<open>k \<ge> 1\<close> configured attempts
  (no client can be created) and the pause ranges are well formed, the pipeline still
  hands the flow operation to the retry executor, which invokes it \<open>k\<close> times with its
  pauses; every invocation returns false at the session guard, so no task is planned or
  executed and no inter-task pause is made. The pipeline then reports once, with
  \<^verbatim>\<open>report_error\<close>, and makes the pause before the next account.
\<close>

theorem failed_initialize_outcome:
  assumes att: "ATTEMPTS (SETTINGS config) = int k" and k: "1 \<le> k"
    and r1: "well_formed (RANDOM_INITIALIZATION_PAUSE (SETTINGS config))"
    and r2: "well_formed (PAUSE_BETWEEN_ATTEMPTS (SETTINGS config))"
    and r3: "well_formed (RANDOM_PAUSE_BETWEEN_ACCOUNTS (SETTINGS config))"
    and no_client: "\<forall>prx w. \<exists>e. create_client ev prx w = Inl e"
  shows "\<exists>d0 ds1 ds2 d3. length ds1 = k - 1 \<and> length ds2 = k - 1 \<and>
           trace (account_flow ev config a w) =
             trace w @ Slept Initialization_pause d0 #
               quiet_run (account_index a, ''Initialization'') ds1 @
               quiet_run (account_index a, ''Flow'') ds2 @ [Slept Account_pause d3] \<and>
           error_data (account_flow ev config a w) =
             append_record (proxy a) (discord_token a) (account_index a) (error_data w) \<and>
           success_data (account_flow ev config a w) = success_data w"
proof -
  from random_sleep_well_formed [OF r1] obtain d0 where
    d0: "random_sleep (RANDOM_INITIALIZATION_PAUSE (SETTINGS config)) Initialization_pause w =
          (Inr (), w\<lparr>rpos := Suc (rpos w), trace := trace w @ [Slept Initialization_pause d0]\<rparr>)"
    by blast
  define w1 where "w1 = w\<lparr>rpos := Suc (rpos w), trace := trace w @ [Slept Initialization_pause d0],
      session := None\<rparr>"
  have s1: "session w1 = None" by (simp add: w1_def)
  have rest: "k - 0 = Suc (k - 1)" using k by simp
  have inert1: "\<forall>w. session w = None \<longrightarrow> initialize ev a w = (Inr (PBool False), w)"
    using initialize_without_client [OF no_client] by simp
  from quiet_retry [OF att r2 inert1 rest s1, of "(account_index a, ''Initialization'')"]
  obtain ds1 w2 where
    w2: "execute_with_retries (initialize ev a) config (account_index a, ''Initialization'') w1 =
           (Inr False, w2)"
        "length ds1 = k - 1"
        "trace w2 = trace w1 @ quiet_run (account_index a, ''Initialization'') ds1"
        "session w2 = None" "success_data w2 = success_data w1" "error_data w2 = error_data w1"
    using att by (auto simp add: execute_with_retries_def py_range_def)
  have inert2: "\<forall>w. session w = None \<longrightarrow> flow ev config w = (Inr (PBool False), w)"
    by (simp add: flow_without_session)
  from quiet_retry [OF att r2 inert2 rest w2(4), of "(account_index a, ''Flow'')"]
  obtain ds2 w3 where
    w3: "execute_with_retries (flow ev config) config (account_index a, ''Flow'') w2 =
           (Inr False, w3)"
        "length ds2 = k - 1"
        "trace w3 = trace w2 @ quiet_run (account_index a, ''Flow'') ds2"
        "session w3 = None" "success_data w3 = success_data w2" "error_data w3 = error_data w2"
    using att by (auto simp add: execute_with_retries_def py_range_def)
  define w4 where "w4 = report_error (proxy a) (discord_token a) (account_index a) w3"
  from random_sleep_well_formed [OF r3] obtain d3 where
    d3: "random_sleep (RANDOM_PAUSE_BETWEEN_ACCOUNTS (SETTINGS config)) Account_pause w4 =
          (Inr (), w4\<lparr>rpos := Suc (rpos w4), trace := trace w4 @ [Slept Account_pause d3]\<rparr>)"
    by blast
  have result: "account_flow ev config a w =
      w4\<lparr>rpos := Suc (rpos w4), trace := trace w4 @ [Slept Account_pause d3]\<rparr>"
    using d0 w2(1) w3(1) d3
    by (simp add: account_flow_def account_flow_try_def w1_def w4_def)
  have tr: "trace (account_flow ev config a w) =
      trace w @ Slept Initialization_pause d0 #
        quiet_run (account_index a, ''Initialization'') ds1 @
        quiet_run (account_index a, ''Flow'') ds2 @ [Slept Account_pause d3]"
    by (simp add: result w4_def report_error_def w3(3) w2(3) w1_def)
  have er: "error_data (account_flow ev config a w) =
      append_record (proxy a) (discord_token a) (account_index a) (error_data w)"
    by (simp add: result w4_def report_error_def w3(6) w2(6) w1_def)
  have su: "success_data (account_flow ev config a w) = success_data w"
    by (simp add: result w4_def report_error_def w3(5) w2(5) w1_def)
  from w2(2) w3(2) tr er su show ?thesis by blast
qed


theorem failed_initialize_outcome_witness:
  "account_indices (error_data (account_flow unreachable_env default_config first_account
       (fresh_world (\<lambda>n. 0)))) = [1] \<and>
   success_data (account_flow unreachable_env default_config first_account
       (fresh_world (\<lambda>n. 0))) = empty_ledger \<and>
   (\<exists>d0 ds1 ds2 d3. length ds1 = 2 \<and> length ds2 = 2 \<and>
      trace (account_flow unreachable_env default_config first_account (fresh_world (\<lambda>n. 0))) =
        Slept Initialization_pause d0 # quiet_run (1, ''Initialization'') ds1 @
          quiet_run (1, ''Flow'') ds2 @ [Slept Account_pause d3])"
proof -
  let ?w = "account_flow unreachable_env default_config first_account (fresh_world (\<lambda>n. 0))"
  have k: "(1::nat) \<le> 3" by simp
  have no_client: "\<forall>prx w. \<exists>e. create_client unreachable_env prx w = Inl e"
    by (simp add: unreachable_env_def)
  from failed_initialize_outcome [OF default_attempts k default_ranges(1) default_attempt_pause
      default_ranges(2) no_client, of first_account "fresh_world (\<lambda>n. 0)"]
  obtain d0 ds1 ds2 d3 where
    run: "length ds1 = 3 - 1" "length ds2 = 3 - 1"
      "trace ?w = trace (fresh_world (\<lambda>n. 0)) @ Slept Initialization_pause d0 #
         quiet_run (account_index first_account, ''Initialization'') ds1 @
         quiet_run (account_index first_account, ''Flow'') ds2 @ [Slept Account_pause d3]"
      "error_data ?w = append_record (proxy first_account) (discord_token first_account)
         (account_index first_account) (error_data (fresh_world (\<lambda>n. 0)))"
      "success_data ?w = success_data (fresh_world (\<lambda>n. 0))"
    by blast
  have "account_indices (error_data ?w) = [1]"
    unfolding run(4) by (simp add: append_record_def first_account_def fresh_world_def empty_ledger_def)
  moreover have "success_data ?w = empty_ledger" unfolding run(5) by (simp add: fresh_world_def)
  moreover have "length ds1 = 2 \<and> length ds2 = 2 \<and>
      trace ?w = Slept Initialization_pause d0 # quiet_run (1, ''Initialization'') ds1 @
          quiet_run (1, ''Flow'') ds2 @ [Slept Account_pause d3]"
    unfolding run(3) using run(1,2) by (simp add: first_account_def fresh_world_def)
  ultimately show ?thesis by blast
qed

text \<open>
  C2 as stated has the flow operation never invoked once initialization has failed. With
  the default three attempts and no client, the flow operation is invoked three times.
\<close>

theorem failed_initialize_counterexample:
  "trace (account_flow unreachable_env default_config first_account (fresh_world (\<lambda>n. 0))) =
     [Slept Initialization_pause 5,
      Invoked (1, ''Initialization''), Slept Attempt_pause 5,
      Invoked (1, ''Initialization''), Slept Attempt_pause 5,
      Invoked (1, ''Initialization''),
      Invoked (1, ''Flow''), Slept Attempt_pause 5,
      Invoked (1, ''Flow''), Slept Attempt_pause 5,
      Invoked (1, ''Flow''),
      Slept Account_pause 5]"
  by code_simp


section \<open>Properties of the flow operation\<close>










section \<open>Properties of the task plan\<close>











section \<open>Properties of the outcome report\<close>

text \<open>
  Only the reporter writes to the ledgers: the pauses, the retry executor and the two
  operations leave both directories as they are.
\<close>

lemma random_sleep_ledgers:
  "success_data (snd (random_sleep r site w)) = success_data w \<and>
   error_data (snd (random_sleep r site w)) = error_data w"
proof (cases "well_formed r")
  case True
  from random_sleep_well_formed [OF True, of site w] obtain d where
    "random_sleep r site w = (Inr (), w\<lparr>rpos := Suc (rpos w), trace := trace w @ [Slept site d]\<rparr>)"
    by blast
  then show ?thesis by simp
next
  case False
  then show ?thesis by (simp add: random_sleep_inverted)
qed

lemma retry_loop_ledgers:
  assumes "\<forall>w. success_data (snd (function w)) = success_data w \<and>
               error_data (snd (function w)) = error_data w"
  shows "success_data (snd (retry_loop function config p attempts w)) = success_data w \<and>
         error_data (snd (retry_loop function config p attempts w)) = error_data w"
proof (induction attempts arbitrary: w)
  case Nil
  show ?case by simp
next
  case (Cons attempt rest)
  let ?w0 = "w\<lparr>trace := trace w @ [Invoked p]\<rparr>"
  obtain r w1 where f: "function ?w0 = (r, w1)" by (cases "function ?w0")
  have l1: "success_data w1 = success_data w \<and> error_data w1 = error_data w"
    using assms [rule_format, of ?w0] f by simp
  obtain r2 w2 where s: "random_sleep (PAUSE_BETWEEN_ATTEMPTS (SETTINGS config)) Attempt_pause w1
      = (r2, w2)"
    by (cases "random_sleep (PAUSE_BETWEEN_ATTEMPTS (SETTINGS config)) Attempt_pause w1")
  have l2: "success_data w2 = success_data w \<and> error_data w2 = error_data w"
    using random_sleep_ledgers [of "PAUSE_BETWEEN_ATTEMPTS (SETTINGS config)" Attempt_pause w1]
      s l1 by simp
  show ?case
    using f s l1 l2 Cons.IH [of w1] Cons.IH [of w2]
    by (simp split: sum.splits bool.splits)
qed

lemma initialize_ledgers:
  "success_data (snd (initialize ev a w)) = success_data w \<and>
   error_data (snd (initialize ev a w)) = error_data w"
  by (simp add: initialize_def split: sum.splits)

lemma plan_tasks_ledgers:
  "success_data (snd (plan_tasks i items w)) = success_data w \<and>
   error_data (snd (plan_tasks i items w)) = error_data w"
proof (induction i items w rule: plan_tasks.induct)
  case (1 i w)
  show ?case by simp
next
  case (2 i task_item items w)
  show ?case
  proof (cases "task_item = []")
    case True
    then show ?thesis by (simp add: choice_def)
  next
    case False
    then show ?thesis
      using 2 [of "Inr (task_item ! (rnd w (rpos w) mod length task_item))"
                  "w\<lparr>rpos := Suc (rpos w)\<rparr>" "task_item ! (rnd w (rpos w) mod length task_item)"]
      by (auto simp add: choice_def split: prod.splits sum.splits)
  qed
next
  case (3 i task_item items w)
  then show ?case by (auto split: prod.splits sum.splits)
qed

lemma execute_task_ledgers:
  "success_data (snd (execute_task ev task w)) = success_data w \<and>
   error_data (snd (execute_task ev task w)) = error_data w"
  by (simp add: execute_task_def logs_task_def Let_def split: option.splits)

lemma run_tasks_ledgers:
  "success_data (snd (run_tasks ev config planned w)) = success_data w \<and>
   error_data (snd (run_tasks ev config planned w)) = error_data w"
proof (induction planned arbitrary: w)
  case Nil
  show ?case by simp
next
  case (Cons x planned)
  obtain i task where x: "x = (i, task)" by (cases x)
  obtain r1 w1 where e1: "execute_task ev (lower task) w = (r1, w1)"
    by (cases "execute_task ev (lower task) w")
  have l1: "success_data w1 = success_data w \<and> error_data w1 = error_data w"
    using execute_task_ledgers [of ev "lower task" w] e1 by simp
  obtain r2 w2 where s: "random_sleep (RANDOM_PAUSE_BETWEEN_ACTIONS (SETTINGS config)) Action_pause w1
      = (r2, w2)"
    by (cases "random_sleep (RANDOM_PAUSE_BETWEEN_ACTIONS (SETTINGS config)) Action_pause w1")
  have l2: "success_data w2 = success_data w \<and> error_data w2 = error_data w"
    using random_sleep_ledgers [of "RANDOM_PAUSE_BETWEEN_ACTIONS (SETTINGS config)" Action_pause w1]
      s l1 by simp
  show ?case
    using e1 s l1 l2 Cons.IH [of w2] by (simp add: x split: sum.splits)
qed

lemma flow_ledgers:
  "success_data (snd (flow ev config w)) = success_data w \<and>
   error_data (snd (flow ev config w)) = error_data w"
proof -
  obtain r1 w1 where p: "plan_tasks 1 (TASKS (FLOW config)) w = (r1, w1)"
    by (cases "plan_tasks 1 (TASKS (FLOW config)) w")
  have l1: "success_data w1 = success_data w \<and> error_data w1 = error_data w"
    using plan_tasks_ledgers [of 1 "TASKS (FLOW config)" w] p by simp
  have l2: "success_data (snd (run_tasks ev config planned (w1\<lparr>trace := t\<rparr>))) = success_data w \<and>
      error_data (snd (run_tasks ev config planned (w1\<lparr>trace := t\<rparr>))) = error_data w"
    for planned t
    using run_tasks_ledgers [of ev config planned "w1\<lparr>trace := t\<rparr>"] l1 by simp
  have "success_data (snd (flow_body ev config w)) = success_data w \<and>
      error_data (snd (flow_body ev config w)) = error_data w"
  proof (cases "session w = None \<or> MonadXYZ_init ev w \<noteq> None")
    case True
    then show ?thesis by (auto simp add: flow_body_def)
  next
    case False
    show ?thesis
    proof (cases r1)
      case (Inl e)
      then show ?thesis using False p l1 by (auto simp add: flow_body_def)
    next
      case (Inr planned)
      obtain r2 w2 where r: "run_tasks ev config planned (w1\<lparr>trace := trace w1 @ [Planned planned]\<rparr>)
          = (r2, w2)"
        by (cases "run_tasks ev config planned (w1\<lparr>trace := trace w1 @ [Planned planned]\<rparr>)")
      have "success_data w2 = success_data w \<and> error_data w2 = error_data w"
        using l2 [of planned "trace w1 @ [Planned planned]"] r by simp
      then show ?thesis using False p Inr r by (cases r2) (auto simp add: flow_body_def)
    qed
  qed
  then show ?thesis by (cases "flow_body ev config w"; cases "fst (flow_body ev config w)")
     (auto simp add: flow_def)
qed


lemma execute_with_retries_ledgers:
  assumes "\<forall>w. success_data (snd (function w)) = success_data w \<and>
               error_data (snd (function w)) = error_data w"
  shows "success_data (snd (execute_with_retries function config p w)) = success_data w \<and>
         error_data (snd (execute_with_retries function config p w)) = error_data w"
  unfolding execute_with_retries_def by (rule retry_loop_ledgers [OF assms])

text \<open>
  As long as the range of the pause before the next account is well formed, a pipeline
  appends exactly one record, under exactly one of the two directories, whatever the
  collaborators do and whatever the other settings are: every exception raised before the
  report leads to \<^verbatim>\<open>report_error\<close> alone.
\<close>

lemma account_flow_reports_once:
  assumes "well_formed (RANDOM_PAUSE_BETWEEN_ACCOUNTS (SETTINGS config))"
  shows "(success_data (account_flow ev config a w) =
            append_record (proxy a) (discord_token a) (account_index a) (success_data w) \<and>
          error_data (account_flow ev config a w) = error_data w) \<or>
         (success_data (account_flow ev config a w) = success_data w \<and>
          error_data (account_flow ev config a w) =
            append_record (proxy a) (discord_token a) (account_index a) (error_data w))"
proof -
  obtain r0 w0 where s0: "random_sleep (RANDOM_INITIALIZATION_PAUSE (SETTINGS config))
      Initialization_pause w = (r0, w0)"
    by (cases "random_sleep (RANDOM_INITIALIZATION_PAUSE (SETTINGS config)) Initialization_pause w")
  have l0: "success_data w0 = success_data w \<and> error_data w0 = error_data w"
    using random_sleep_ledgers [of "RANDOM_INITIALIZATION_PAUSE (SETTINGS config)"
        Initialization_pause w] s0 by simp
  obtain r1 w1 where e1: "execute_with_retries (initialize ev a) config
      (account_index a, ''Initialization'') (w0\<lparr>session := None\<rparr>) = (r1, w1)"
    by (cases "execute_with_retries (initialize ev a) config
      (account_index a, ''Initialization'') (w0\<lparr>session := None\<rparr>)")
  have l1: "success_data w1 = success_data w \<and> error_data w1 = error_data w"
    using execute_with_retries_ledgers [of "initialize ev a" config
        "(account_index a, ''Initialization'')" "w0\<lparr>session := None\<rparr>"]
      initialize_ledgers e1 l0 by simp
  obtain r2 w2 where e2: "execute_with_retries (flow ev config) config
      (account_index a, ''Flow'') w1 = (r2, w2)"
    by (cases "execute_with_retries (flow ev config) config (account_index a, ''Flow'') w1")
  have l2: "success_data w2 = success_data w \<and> error_data w2 = error_data w"
    using execute_with_retries_ledgers [of "flow ev config" config "(account_index a, ''Flow'')" w1]
      flow_ledgers e2 l1 by simp
  have cool: "\<exists>d. random_sleep (RANDOM_PAUSE_BETWEEN_ACCOUNTS (SETTINGS config)) Account_pause w' =
      (Inr (), w'\<lparr>rpos := Suc (rpos w'), trace := trace w' @ [Slept Account_pause d]\<rparr>)" for w'
    by (rule random_sleep_well_formed [OF assms])
  show ?thesis
  proof (cases r0)
    case (Inl e)
    then show ?thesis using s0 l0
      by (simp add: account_flow_def account_flow_try_def report_error_def)
  next
    case u0: (Inr u)
    show ?thesis
    proof (cases r1)
      case (Inl e)
      then show ?thesis using s0 u0 e1 l1
        by (simp add: account_flow_def account_flow_try_def report_error_def)
    next
      case i1: (Inr init_ok)
      show ?thesis
      proof (cases r2)
        case (Inl e)
        then show ?thesis using s0 u0 e1 i1 e2 l2
          by (simp add: account_flow_def account_flow_try_def report_error_def)
      next
        case f2: (Inr flow_ok)
        define w3 where "w3 = (if init_ok \<and> flow_ok
          then report_success (proxy a) (discord_token a) (account_index a) w2
          else report_error (proxy a) (discord_token a) (account_index a) w2)"
        from cool [of w3] obtain d where
          d: "random_sleep (RANDOM_PAUSE_BETWEEN_ACCOUNTS (SETTINGS config)) Account_pause w3 =
              (Inr (), w3\<lparr>rpos := Suc (rpos w3), trace := trace w3 @ [Slept Account_pause d]\<rparr>)"
          by blast
        have "account_flow_try ev config a w =
            (Inr (), w3\<lparr>rpos := Suc (rpos w3), trace := trace w3 @ [Slept Account_pause d]\<rparr>)"
          using s0 u0 e1 i1 e2 f2 d unfolding w3_def
          by (simp add: account_flow_try_def Let_def)
        then have result: "account_flow ev config a w =
            w3\<lparr>rpos := Suc (rpos w3), trace := trace w3 @ [Slept Account_pause d]\<rparr>"
          by (simp add: account_flow_def)
        show ?thesis
        proof (cases "init_ok \<and> flow_ok")
          case True
          then have "w3 = report_success (proxy a) (discord_token a) (account_index a) w2"
            by (simp add: w3_def)
          then show ?thesis using l2 by (simp add: result report_success_def)
        next
          case False
          then have "w3 = report_error (proxy a) (discord_token a) (account_index a) w2"
            by (auto simp add: w3_def)
          then show ?thesis using l2 by (simp add: result report_error_def)
        qed
      qed
    qed
  qed
qed

text \<open>
  C4. The claim that every pipeline invokes the reporter exactly once, so that its index
  is appended under at most one of the two directories, fails on a configuration whose
  \<^verbatim>\<open>RANDOM_PAUSE_BETWEEN_ACCOUNTS\<close> is \<open>(15, 5)\<close>: the pause before the next account stands
  inside the \<^verbatim>\<open>try\<close> block after the report, \<^verbatim>\<open>random.randint(15, 5)\<close> raises
  \<^verbatim>\<open>ValueError\<close>, and the handler calls \<^verbatim>\<open>report_error\<close> for a pipeline that has already
  called \<^verbatim>\<open>report_success\<close>. The index of the account is then in both ledgers.
\<close>

theorem inverted_cooldown_reports_twice:
  "account_indices (success_data (account_flow working_env
      (default_config\<lparr>SETTINGS := default_settings\<lparr>RANDOM_PAUSE_BETWEEN_ACCOUNTS := (15, 5)\<rparr>\<rparr>)
      first_account (fresh_world (\<lambda>n. 0)))) = [1] \<and>
   account_indices (error_data (account_flow working_env
      (default_config\<lparr>SETTINGS := default_settings\<lparr>RANDOM_PAUSE_BETWEEN_ACCOUNTS := (15, 5)\<rparr>\<rparr>)
      first_account (fresh_world (\<lambda>n. 0)))) = [1]"
  by code_simp


end
